theory Spec2Isabelle
  imports Main "HOL-Library.Sublist"
begin

section \<open>The mkcert wrapper (package mkcert, file mkcert.go)\<close>

text \<open>
  A Go \<^verbatim>\<open>string\<close> and a \<^verbatim>\<open>[]byte\<close> are both byte sequences: they are modelled as
  \<^typ>\<open>string\<close>, a list of 8-bit characters. A nil slice and an empty slice are not told
  apart by the code (it only takes \<^verbatim>\<open>len\<close>), both are \<open>[]\<close>.
\<close>

subsection \<open>Go error values\<close>

text \<open>
  The error values that can reach a caller of \<^verbatim>\<open>Exec\<close>:
  \<^item> \<open>errorString\<close>: what \<^verbatim>\<open>errors.New\<close> builds, and what \<^verbatim>\<open>fmt.Errorf\<close> builds from a
    format without the verb \<^verbatim>\<open>%w\<close>; it has no \<^verbatim>\<open>Unwrap\<close> method;
  \<^item> \<open>wrapError\<close>: what \<^verbatim>\<open>fmt.Errorf\<close> builds from a format with \<^verbatim>\<open>%w\<close> (also any other
    error with an \<^verbatim>\<open>Unwrap\<close> method, such as \<^verbatim>\<open>*exec.Error\<close>): a message and the
    wrapped error;
  \<^item> \<open>ExitError\<close>: \<^verbatim>\<open>*exec.ExitError\<close>, the exit status of the process and its
    \<^verbatim>\<open>Stderr\<close> field.
\<close>

datatype error =
    errorString string
  | wrapError string error
  | ExitError nat string

fun itoa :: "nat \<Rightarrow> string" where
  "itoa n = (if n < 10 then [char_of (48 + n)]
             else itoa (n div 10) @ [char_of (48 + n mod 10)])"

declare itoa.simps [simp del]

text \<open>The method \<^verbatim>\<open>Error()\<close>; an exit error prints its process state.\<close>

fun Error :: "error \<Rightarrow> string" where
  "Error (errorString s) = s"
| "Error (wrapError s e) = s"
| "Error (ExitError n se) = ''exit status '' @ itoa n"

text \<open>\<^verbatim>\<open>errors.Unwrap\<close>, and \<^verbatim>\<open>errors.As\<close> with a target of type \<^verbatim>\<open>**exec.ExitError\<close>:
  the first error of the chain that is an exit error.\<close>

fun Unwrap :: "error \<Rightarrow> error option" where
  "Unwrap (wrapError s e) = Some e"
| "Unwrap e = None"

fun As_ExitError :: "error \<Rightarrow> (nat \<times> string) option" where
  "As_ExitError (ExitError n se) = Some (n, se)"
| "As_ExitError (wrapError s e) = As_ExitError e"
| "As_ExitError (errorString s) = None"

text \<open>\<^verbatim>\<open>fmt.Errorf("mkcert: %s", err)\<close>: the verb \<^verbatim>\<open>%s\<close> formats the text of \<open>err\<close>
  into the message, the result keeps no reference to \<open>err\<close>.\<close>

definition Errorf_s :: "string \<Rightarrow> string \<Rightarrow> string \<Rightarrow> error" where
  "Errorf_s prefix_text arg suffix_text = errorString (prefix_text @ arg @ suffix_text)"

definition ErrNoDomains :: error where
  "ErrNoDomains = errorString ''mkcert: no domains specified''"

subsection \<open>The result and the parameters\<close>

record Cert =
  Cert_CARoot :: string
  Cert_Trusted :: bool
  Cert_Domains :: "string list"
  Cert_File :: string
  Cert_KeyFile :: string

text \<open>The zero value \<^verbatim>\<open>Cert{}\<close>.\<close>

definition Cert_zero :: Cert where
  "Cert_zero = \<lparr>Cert_CARoot = [], Cert_Trusted = False, Cert_Domains = [],
                 Cert_File = [], Cert_KeyFile = []\<rparr>"

record params =
  dir :: string
  certFile :: string
  keyFile :: string
  domains :: "string list"
  requireTrust :: bool

text \<open>The zero value of \<^verbatim>\<open>var p params\<close>.\<close>

definition params_zero :: params where
  "params_zero = \<lparr>dir = [], certFile = [], keyFile = [], domains = [],
                   requireTrust = False\<rparr>"

text \<open>
  An \<^verbatim>\<open>Opt\<close> is a \<^verbatim>\<open>func(*params)\<close>. The type \<^verbatim>\<open>params\<close> is unexported and the package
  has five functions that build an \<^verbatim>\<open>Opt\<close>, so the options a caller can pass are the
  closures these five return: each is modelled as a constructor holding the captured
  argument, and \<open>apply_opt\<close> is the body of the closure (the call of the option on \<^verbatim>\<open>&p\<close>, with the
  updated \<open>p\<close> returned). A nil \<^verbatim>\<open>Opt\<close> is not modelled.
\<close>

datatype Opt =
    Domains "string list"
  | RequireTrusted bool
  | Directory string
  | CertFile string
  | KeyFile string

fun apply_opt :: "Opt \<Rightarrow> params \<Rightarrow> params" where
  "apply_opt (Domains ds) p = p\<lparr>domains := ds\<rparr>"
| "apply_opt (RequireTrusted req) p = p\<lparr>requireTrust := req\<rparr>"
| "apply_opt (Directory path) p = p\<lparr>dir := path\<rparr>"
| "apply_opt (CertFile path) p = p\<lparr>certFile := path\<rparr>"
| "apply_opt (KeyFile path) p = p\<lparr>keyFile := path\<rparr>"

text \<open>The loop \<^verbatim>\<open>for _, o := range opts { o(&p) }\<close>.\<close>

fun apply_opts :: "Opt list \<Rightarrow> params \<Rightarrow> params" where
  "apply_opts [] p = p"
| "apply_opts (opt # opts) p = apply_opts opts (apply_opt opt p)"

subsection \<open>Regular expressions (package regexp)\<close>

text \<open>
  The two patterns of the file use literals, \<^verbatim>\<open>.\<close>, a class of two characters, the
  lazy repetition \<^verbatim>\<open>+?\<close> and capture groups. Go matches leftmost-first: the match
  starts as early as possible and, among the matches starting there, it is the one a
  backtracking engine finds first. \<open>backtrack r s\<close> lists, in the order a backtracking
  engine tries them, the ways \<open>r\<close> matches a prefix of \<open>s\<close>: the captures made and the
  rest of the input.

  The input is matched byte by byte. Go decodes UTF-8 and \<^verbatim>\<open>.\<close> takes one code point
  (an invalid byte counts as one); since a byte below 128 is never inside the encoding
  of a longer code point and every \<^verbatim>\<open>.+?\<close> of the two patterns stands between ASCII
  literals, taking the bytes one at a time gives the same matches. A class of non-ASCII
  characters is the alternative of their UTF-8 encodings.
\<close>

type_synonym caps = "(nat \<times> string) list"

datatype regex =
    Lit string
  | AnyNotNL
  | Alt regex regex
  | Cat regex regex
  | LazyPlus regex
  | Group nat regex

function backtrack :: "regex \<Rightarrow> string \<Rightarrow> (caps \<times> string) list" where
  "backtrack (Lit l) s = (if prefix l s then [([], drop (length l) s)] else [])"
| "backtrack AnyNotNL s =
     (case s of [] \<Rightarrow> [] | c # cs \<Rightarrow> if c = CHR 0x0A then [] else [([], cs)])"
| "backtrack (Alt r1 r2) s = backtrack r1 s @ backtrack r2 s"
| "backtrack (Cat r1 r2) s =
     concat (map (\<lambda>(c1, s1). map (\<lambda>(c2, s2). (c1 @ c2, s2)) (backtrack r2 s1))
                 (backtrack r1 s))"
| "backtrack (LazyPlus r) s =
     concat (map (\<lambda>(c1, s1). (c1, s1) #
                    (if length s1 < length s
                     then map (\<lambda>(c2, s2). (c2 @ c1, s2)) (backtrack (LazyPlus r) s1)
                     else []))
                 (backtrack r s))"
| "backtrack (Group n r) s =
     map (\<lambda>(c, s'). ((n, take (length s - length s') s) # c, s')) (backtrack r s)"
  by pat_completeness auto
termination
  by (relation "measures [\<lambda>(r, s). size r, \<lambda>(r, s). length s]") auto

text \<open>The number of capture groups, \<^verbatim>\<open>NumSubexp\<close>.\<close>

fun NumSubexp :: "regex \<Rightarrow> nat" where
  "NumSubexp (Lit l) = 0"
| "NumSubexp AnyNotNL = 0"
| "NumSubexp (Alt r1 r2) = NumSubexp r1 + NumSubexp r2"
| "NumSubexp (Cat r1 r2) = NumSubexp r1 + NumSubexp r2"
| "NumSubexp (LazyPlus r) = NumSubexp r"
| "NumSubexp (Group n r) = Suc (NumSubexp r)"

text \<open>The unanchored search: the first start position, from the left, at which the
  pattern matches, with the first match there. \<open>pos\<close> is the offset of \<open>s\<close> in the
  whole input; the result is the offset where the match starts, the text matched and
  the captures.\<close>

fun search :: "regex \<Rightarrow> string \<Rightarrow> nat \<Rightarrow> (nat \<times> string \<times> caps) option" where
  "search re [] pos =
     (case backtrack re [] of [] \<Rightarrow> None | (c, rest) # _ \<Rightarrow> Some (pos, [], c))"
| "search re (x # xs) pos =
     (case backtrack re (x # xs) of
        [] \<Rightarrow> search re xs (Suc pos)
      | (c, rest) # _ \<Rightarrow> Some (pos, take (length (x # xs) - length rest) (x # xs), c))"

text \<open>\<^verbatim>\<open>FindSubmatch\<close>: nil (here \<open>[]\<close>) without a match, else the text of the match
  followed by the text of each group (empty for a group that took no part).\<close>

definition FindSubmatch :: "regex \<Rightarrow> string \<Rightarrow> string list" where
  "FindSubmatch re s =
     (case search re s 0 of
        None \<Rightarrow> []
      | Some (start, m, c) \<Rightarrow>
          m # map (\<lambda>i. case map_of c i of None \<Rightarrow> [] | Some g \<Rightarrow> g) [1 ..< Suc (NumSubexp re)])"

text \<open>\<^verbatim>\<open>bytes.Contains\<close>.\<close>

fun Contains :: "string \<Rightarrow> string \<Rightarrow> bool" where
  "Contains [] subslice = (subslice = [])"
| "Contains (c # cs) subslice = (prefix subslice (c # cs) \<or> Contains cs subslice)"

subsection \<open>The output parser\<close>

text \<open>\<^verbatim>\<open>local CA at "(.+?)" [<U+1F4A5><U+2728>]\n\<close>: the class holds the code points
  U+1F4A5 and U+2728, in UTF-8 the bytes F0 9F 92 A5 and E2 9C A8.\<close>

definition caRe :: regex where
  "caRe = Cat (Lit ''local CA at \"'')
         (Cat (Group 1 (LazyPlus AnyNotNL))
         (Cat (Lit ''\" '')
         (Cat (Alt (Lit [CHR 0xF0, CHR 0x9F, CHR 0x92, CHR 0xA5])
                   (Lit [CHR 0xE2, CHR 0x9C, CHR 0xA8]))
              (Lit [CHR 0x0A]))))"

text \<open>\<^verbatim>\<open>(?m)The certificate is at "(.+?)" and the key at "(.+?)"\<close>; the flag \<^verbatim>\<open>m\<close>
  changes \<^verbatim>\<open>^\<close> and \<^verbatim>\<open>$\<close> only, and the pattern has neither.\<close>

definition fileRe :: regex where
  "fileRe = Cat (Lit ''The certificate is at \"'')
           (Cat (Group 1 (LazyPlus AnyNotNL))
           (Cat (Lit ''\" and the key at \"'')
           (Cat (Group 2 (LazyPlus AnyNotNL))
                (Lit ''\"''))))"

definition parseCA :: "string \<Rightarrow> string" where
  "parseCA out =
     (let match = FindSubmatch caRe out
      in if length match < 2 then [] else match ! 1)"

definition parseTrusted :: "string \<Rightarrow> bool" where
  "parseTrusted out = (\<not> Contains out ''not installed'')"

definition parseFiles :: "string \<Rightarrow> string \<times> string" where
  "parseFiles out =
     (let match = FindSubmatch fileRe out
      in if length match < 3 then ([], []) else (match ! 1, match ! 2))"

subsection \<open>File paths (package path/filepath, on Unix)\<close>

definition IsPathSeparator :: "char \<Rightarrow> bool" where
  "IsPathSeparator c = (c = CHR ''/'')"

definition IsAbs :: "string \<Rightarrow> bool" where
  "IsAbs path = prefix ''/'' path"

text \<open>The inner loop of the \<^verbatim>\<open>..\<close> case of \<^verbatim>\<open>Clean\<close>, after its first \<^verbatim>\<open>out.w--\<close>:
  \<^verbatim>\<open>for out.w > dotdot && !os.IsPathSeparator(out.index(out.w)) { out.w-- }\<close>.\<close>

fun rewind :: "string \<Rightarrow> nat \<Rightarrow> nat \<Rightarrow> nat" where
  "rewind buf dotdot 0 = 0"
| "rewind buf dotdot (Suc w) =
     (if Suc w > dotdot \<and> \<not> IsPathSeparator (buf ! Suc w) then rewind buf dotdot w else Suc w)"

text \<open>
  The main loop of \<^verbatim>\<open>Clean\<close>. \<open>path\<close> is what is left to read (\<^verbatim>\<open>path[r:]\<close>), \<open>buf\<close>
  what has been written (\<^verbatim>\<open>out\<close> up to \<^verbatim>\<open>out.w\<close>).
\<close>

function clean_loop :: "bool \<Rightarrow> string \<Rightarrow> string \<Rightarrow> nat \<Rightarrow> string" where
  "clean_loop rooted path buf dotdot =
     (case path of
        [] \<Rightarrow> buf
      | c # rest \<Rightarrow>
          if IsPathSeparator c then clean_loop rooted rest buf dotdot
          else if c = CHR ''.'' \<and> (rest = [] \<or> IsPathSeparator (hd rest))
          then clean_loop rooted rest buf dotdot
          else if c = CHR ''.'' \<and> hd rest = CHR ''.''
                  \<and> (tl rest = [] \<or> IsPathSeparator (hd (tl rest)))
          then (if length buf > dotdot
                then clean_loop rooted (tl rest)
                       (take (rewind buf dotdot (length buf - 1)) buf) dotdot
                else if \<not> rooted
                then (let buf' = buf @ (if length buf > 0 then ''/'' else []) @ ''..''
                      in clean_loop rooted (tl rest) buf' (length buf'))
                else clean_loop rooted (tl rest) buf dotdot)
          else (let buf' = buf @ (if rooted \<and> length buf \<noteq> 1 \<or> \<not> rooted \<and> length buf \<noteq> 0
                                  then ''/'' else [])
                in clean_loop rooted (dropWhile (\<lambda>c. \<not> IsPathSeparator c) path)
                     (buf' @ takeWhile (\<lambda>c. \<not> IsPathSeparator c) path) dotdot))"
  by pat_completeness auto
termination
  by (relation "measure (\<lambda>(rooted, path, buf, dotdot). length path)")
     (auto simp: less_Suc_eq_le length_dropWhile_le)

declare clean_loop.simps [simp del]

definition Clean :: "string \<Rightarrow> string" where
  "Clean path =
     (if path = [] then ''.''
      else let rooted = IsPathSeparator (hd path);
               buf = clean_loop rooted (if rooted then tl path else path)
                       (if rooted then ''/'' else []) (if rooted then 1 else 0)
           in if length buf = 0 then ''.'' else buf)"

text \<open>\<^verbatim>\<open>strings.Join\<close>.\<close>

fun strings_Join :: "string list \<Rightarrow> string \<Rightarrow> string" where
  "strings_Join [] sep = []"
| "strings_Join [e] sep = e"
| "strings_Join (e # es) sep = e @ sep @ strings_Join es sep"

text \<open>\<^verbatim>\<open>filepath.Join\<close>: the elements from the first non-empty one on, joined by the
  separator and cleaned; the empty string when every element is empty.\<close>

fun Join :: "string list \<Rightarrow> string" where
  "Join [] = []"
| "Join (e # es) = (if e \<noteq> [] then Clean (strings_Join (e # es) ''/'') else Join es)"

subsection \<open>Running the command (package os/exec)\<close>

text \<open>\<open>Args\<close> holds the command name followed by the arguments, as
  \<^verbatim>\<open>exec.Command\<close> fills it.\<close>

record Cmd =
  Args :: "string list"
  Dir :: string

definition Command :: "string \<Rightarrow> string list \<Rightarrow> Cmd" where
  "Command name arg = \<lparr>Args = name # arg, Dir = []\<rparr>"

text \<open>
  What the operating system does with a command is a parameter of the model: the
  process runs to its end with an exit status and the bytes it wrote to standard output
  and standard error together, or it cannot be started (the executable is not found,
  say) and there is an error.
\<close>

datatype outcome =
    Exited nat string
  | NotStarted error

text \<open>
  \<^verbatim>\<open>CombinedOutput\<close> points both \<^verbatim>\<open>Stdout\<close> and \<^verbatim>\<open>Stderr\<close> of the command at one buffer
  and runs it. A non-zero exit status is reported as an \<^verbatim>\<open>*exec.ExitError\<close>; its field
  \<^verbatim>\<open>Stderr\<close> is filled by \<^verbatim>\<open>Output\<close> alone, when the command has no \<^verbatim>\<open>Stderr\<close> of its
  own, so here it is empty.
\<close>

definition CombinedOutput :: "(Cmd \<Rightarrow> outcome) \<Rightarrow> Cmd \<Rightarrow> string \<times> error option" where
  "CombinedOutput run cmd =
     (case run cmd of
        Exited status out \<Rightarrow> (out, if status = 0 then None else Some (ExitError status []))
      | NotStarted e \<Rightarrow> ([], Some e))"

subsection \<open>Exec\<close>

text \<open>
  \<open>Exec run opts started\<close>: \<open>run\<close> is the operating system, \<open>started\<close> the commands
  run so far; the result is the pair \<^verbatim>\<open>(Cert, error)\<close> of the Go function (\<open>None\<close> is
  the nil error) and the commands run, to which \<^verbatim>\<open>cmd.CombinedOutput()\<close> adds one.
\<close>

definition Exec :: "(Cmd \<Rightarrow> outcome) \<Rightarrow> Opt list \<Rightarrow> Cmd list
                    \<Rightarrow> (Cert \<times> error option) \<times> Cmd list" where
  "Exec run opts started =
     (let p = apply_opts opts params_zero
      in if length (domains p) = 0 then ((Cert_zero, Some ErrNoDomains), started)
         else
           let args = [];
               args = (if certFile p \<noteq> [] then args @ [''-cert-file'', certFile p] else args);
               args = (if keyFile p \<noteq> [] then args @ [''-key-file'', keyFile p] else args);
               cmd = (Command ''mkcert'' (args @ domains p))\<lparr>Dir := dir p\<rparr>;
               (out, err) = CombinedOutput run cmd;
               started = started @ [cmd]
           in case err of
                Some e \<Rightarrow> ((Cert_zero, Some (Errorf_s ''mkcert: '' (Error e) [])), started)
              | None \<Rightarrow>
                  let (certFile, keyFile) = parseFiles out;
                      cert = \<lparr>Cert_CARoot = parseCA out, Cert_Trusted = parseTrusted out,
                              Cert_Domains = domains p, Cert_File = certFile,
                              Cert_KeyFile = keyFile\<rparr>;
                      cert = (if Dir cmd \<noteq> []
                              then let cert = (if \<not> IsAbs (Cert_File cert)
                                               then cert\<lparr>Cert_File := Join [Dir cmd, Cert_File cert]\<rparr>
                                               else cert)
                                   in if \<not> IsAbs (Cert_KeyFile cert)
                                      then cert\<lparr>Cert_KeyFile := Join [Dir cmd, Cert_KeyFile cert]\<rparr>
                                      else cert
                              else cert);
                      err = (if \<not> Cert_Trusted cert \<and> requireTrust p
                             then Some (Errorf_s ''mkcert: CA at '' (Cert_CARoot cert)
                                          '' not trusted, run mkcert -install'')
                             else None)
                  in ((cert, err), started))"

section \<open>What the specification says, as definitions\<close>

text \<open>
  The command line of the specification: the executable, the flag \<^verbatim>\<open>-cert-file\<close> with
  its path when a certificate file is given, the flag \<^verbatim>\<open>-key-file\<close> with its path when
  a key file is given, then the domains in the caller's order; the working directory is
  the one given (empty for the current one).
\<close>

definition spec_command :: "params \<Rightarrow> Cmd" where
  "spec_command p =
     \<lparr>Args = [''mkcert'']
              @ (if certFile p = [] then [] else [''-cert-file'', certFile p])
              @ (if keyFile p = [] then [] else [''-key-file'', keyFile p])
              @ domains p,
      Dir = dir p\<rparr>"








text \<open>
  The text a \<^verbatim>\<open>(.+?)\<close> of the two patterns can stand for: at least one byte, and no
  line feed.
\<close>

definition path_text :: "string \<Rightarrow> bool" where
  "path_text p = (p \<noteq> [] \<and> CHR 0x0A \<notin> set p)"

text \<open>
  The file line of the specification,
  \<^verbatim>\<open>The certificate is at "<path1>" and the key at "<path2>"\<close>: \<open>file_line out pre p1 p2\<close>
  says that the line stands in \<open>out\<close> after the text \<open>pre\<close>, with the paths \<open>p1\<close> and
  \<open>p2\<close>. The first match is the one starting leftmost; among those starting there, the
  one with the shortest first path; among those, the one with the shortest second path
  (the repetitions are lazy).
\<close>

definition file_line :: "string \<Rightarrow> string \<Rightarrow> string \<Rightarrow> string \<Rightarrow> bool" where
  "file_line out pre p1 p2 =
     (path_text p1 \<and> path_text p2 \<and>
      (\<exists>post. out = pre @ ''The certificate is at \"'' @ p1 @ ''\" and the key at \"'' @ p2
                     @ ''\"'' @ post))"

definition first_file_line :: "string \<Rightarrow> string \<Rightarrow> string \<Rightarrow> string \<Rightarrow> bool" where
  "first_file_line out pre p1 p2 =
     (file_line out pre p1 p2 \<and>
      (\<forall>pre' q1 q2. file_line out pre' q1 q2 \<longrightarrow>
         length pre < length pre' \<or>
         (pre' = pre \<and> (length p1 < length q1 \<or> (q1 = p1 \<and> length p2 \<le> length q2)))))"

text \<open>
  The CA line of the specification, \<^verbatim>\<open>local CA at "<path>" <marker>\<close> and a line feed; the
  marker is one of the code points U+1F4A5 and U+2728.
\<close>

definition ca_line :: "string \<Rightarrow> string \<Rightarrow> string \<Rightarrow> bool" where
  "ca_line out pre p =
     (path_text p \<and>
      (\<exists>mark post. (mark = [CHR 0xF0, CHR 0x9F, CHR 0x92, CHR 0xA5] \<or>
                     mark = [CHR 0xE2, CHR 0x9C, CHR 0xA8]) \<and>
         out = pre @ ''local CA at \"'' @ p @ ''\" '' @ mark @ [CHR 0x0A] @ post))"

section \<open>Auxiliary definitions\<close>

text \<open>The ways of cutting \<open>s\<close> into a text a lazy \<^verbatim>\<open>.+?\<close> can take and the rest, the
  shortest first.\<close>

fun line_splits :: "string \<Rightarrow> (string \<times> string) list" where
  "line_splits [] = []"
| "line_splits (c # cs) =
     (if c = CHR 0x0A then []
      else ([c], cs) # map (\<lambda>(p, t). (c # p, t)) (line_splits cs))"

text \<open>The conditions of the second and the third case of the loop of \<^verbatim>\<open>Clean\<close>.\<close>

definition dot_element :: "char \<Rightarrow> string \<Rightarrow> bool" where
  "dot_element c rest = (c = CHR ''.'' \<and> (rest = [] \<or> IsPathSeparator (hd rest)))"

definition dotdot_element :: "char \<Rightarrow> string \<Rightarrow> bool" where
  "dotdot_element c rest =
     (c = CHR ''.'' \<and> hd rest = CHR ''.'' \<and> (tl rest = [] \<or> IsPathSeparator (hd (tl rest))))"

text \<open>
  Two outputs of mkcert, for examples: one with the CA line, the warning that the CA is
  not installed, and the file line; one with neither a CA line nor a file line.
\<close>

definition transcript :: string where
  "transcript =
     ''Using the local CA at \"/ca\" '' @ [CHR 0xE2, CHR 0x9C, CHR 0xA8, CHR 0x0A] @
     ''Warning: the local CA is not installed in the system trust store!'' @ [CHR 0x0A] @
     ''The certificate is at \"./a.pem\" and the key at \"/k/a-key.pem\"'' @ [CHR 0x0A]"

definition transcript_bare :: string where
  "transcript_bare = ''Created a new certificate'' @ [CHR 0x0A]"

section \<open>Exec, case by case\<close>

lemma Exec_failed:
  assumes "p = apply_opts opts params_zero" and "domains p \<noteq> []"
    and "CombinedOutput run (spec_command p) = (out, Some e)"
  shows "Exec run opts started =
         ((Cert_zero, Some (Errorf_s ''mkcert: '' (Error e) [])), started @ [spec_command p])"
  using assms unfolding Exec_def Let_def spec_command_def Command_def
  by (cases "certFile p = []"; cases "keyFile p = []"; simp)

lemma Exec_ran:
  assumes "p = apply_opts opts params_zero" and "domains p \<noteq> []"
    and "CombinedOutput run (spec_command p) = (out, None)"
    and "parseFiles out = (cf, kf)"
  shows "Exec run opts started =
         ((\<lparr>Cert_CARoot = parseCA out, Cert_Trusted = parseTrusted out,
            Cert_Domains = domains p,
            Cert_File = (if dir p \<noteq> [] \<and> \<not> IsAbs cf then Join [dir p, cf] else cf),
            Cert_KeyFile = (if dir p \<noteq> [] \<and> \<not> IsAbs kf then Join [dir p, kf] else kf)\<rparr>,
           if \<not> parseTrusted out \<and> requireTrust p
           then Some (Errorf_s ''mkcert: CA at '' (parseCA out) '' not trusted, run mkcert -install'')
           else None),
          started @ [spec_command p])"
  using assms unfolding Exec_def Let_def spec_command_def Command_def
  by (cases "certFile p = []"; cases "keyFile p = []"; simp)

lemma Contains_sublist: "Contains s subslice = sublist subslice s"
  by (induction s) (simp_all add: sublist_Cons_right)





section \<open>The regular expressions\<close>

lemma line_splits_iff:
  "(p, t) \<in> set (line_splits s) \<longleftrightarrow> s = p @ t \<and> path_text p"
proof (induction s arbitrary: p)
  case Nil
  show ?case by (simp add: path_text_def)
next
  case (Cons c cs)
  show ?case
  proof (cases p)
    case Nil
    then show ?thesis by (auto simp: path_text_def)
  next
    case (Cons d q)
    show ?thesis
    proof (cases q)
      case Nil
      with \<open>p = d # q\<close> show ?thesis
        using Cons.IH by (auto simp: path_text_def)
    next
      case (Cons e q')
      with \<open>p = d # q\<close> show ?thesis
        using Cons.IH [of q] by (auto simp: path_text_def)
    qed
  qed
qed

lemma line_splits_sorted:
  "sorted_wrt (\<lambda>a b. length (fst a) < length (fst b)) (line_splits s)"
proof (induction s)
  case Nil
  show ?case by simp
next
  case (Cons c cs)
  have "\<And>p t. (p, t) \<in> set (line_splits cs) \<Longrightarrow> p \<noteq> []"
    by (simp add: line_splits_iff path_text_def)
  with Cons show ?case
    by (auto simp: sorted_wrt_map case_prod_beta)
qed

lemma backtrack_dots:
  "backtrack (LazyPlus AnyNotNL) s = map (\<lambda>(p, t). ([], t)) (line_splits s)"
proof (induction s)
  case Nil
  show ?case by simp
next
  case (Cons c cs)
  then show ?case
    by (simp add: comp_def case_prod_beta)
qed

lemma backtrack_Group_dots:
  "backtrack (Group n (LazyPlus AnyNotNL)) s = map (\<lambda>(p, t). ([(n, p)], t)) (line_splits s)"
proof -
  have "x \<in> set (line_splits s) \<Longrightarrow> take (length s - length (snd x)) s = fst x" for x
    using line_splits_iff [of "fst x" "snd x" s] by auto
  then show ?thesis
    unfolding backtrack.simps(6) backtrack_dots
    by (simp add: comp_def case_prod_unfold cong: map_cong)
qed

lemma backtrack_Lit_Cat:
  "backtrack (Cat (Lit l) r) s = (if prefix l s then backtrack r (drop (length l) s) else [])"
  by simp

lemma backtrack_Group_dots_Cat:
  "backtrack (Cat (Group n (LazyPlus AnyNotNL)) r) s =
     concat (map (\<lambda>(p, t). map (\<lambda>(c2, s2). ((n, p) # c2, s2)) (backtrack r t))
                 (line_splits s))"
  unfolding backtrack.simps(4) backtrack_Group_dots
  by (simp add: comp_def case_prod_unfold)

lemma concat_map_first:
  "concat (map f xs) = y # ys \<Longrightarrow>
   \<exists>us x vs zs. xs = us @ x # vs \<and> (\<forall>u \<in> set us. f u = []) \<and> f x = y # zs"
proof (induction xs)
  case Nil
  then show ?case by simp
next
  case (Cons a xs)
  show ?case
  proof (cases "f a")
    case Nil
    with Cons.prems have "concat (map f xs) = y # ys" by simp
    from Cons.IH [OF this] obtain us x vs zs where
      "xs = us @ x # vs" "\<forall>u \<in> set us. f u = []" "f x = y # zs" by blast
    with Nil have "a # xs = (a # us) @ x # vs \<and> (\<forall>u \<in> set (a # us). f u = []) \<and> f x = y # zs"
      by simp
    then show ?thesis by blast
  next
    case (Cons z zs)
    with Cons.prems have "f a = y # zs" by simp
    then have "a # xs = [] @ a # xs \<and> (\<forall>u \<in> set []. f u = []) \<and> f a = y # zs"
      by simp
    then show ?thesis by blast
  qed
qed

text \<open>A lazy group followed by \<open>r\<close>: no match, and the first match.\<close>

lemma lazy_group_none:
  "backtrack (Cat (Group n (LazyPlus AnyNotNL)) r) s = [] \<longleftrightarrow>
     (\<forall>p t. s = p @ t \<and> path_text p \<longrightarrow> backtrack r t = [])"
proof
  assume none: "backtrack (Cat (Group n (LazyPlus AnyNotNL)) r) s = []"
  show "\<forall>p t. s = p @ t \<and> path_text p \<longrightarrow> backtrack r t = []"
  proof (intro allI impI)
    fix p t
    assume "s = p @ t \<and> path_text p"
    then have "(p, t) \<in> set (line_splits s)"
      by (simp add: line_splits_iff)
    with none have "map (\<lambda>(c2, s2). ((n, p) # c2, s2)) (backtrack r t) = []"
      unfolding backtrack_Group_dots_Cat concat_eq_Nil_conv by fastforce
    then show "backtrack r t = []" by simp
  qed
next
  assume all: "\<forall>p t. s = p @ t \<and> path_text p \<longrightarrow> backtrack r t = []"
  have "map (\<lambda>(c2, s2). ((n, p) # c2, s2)) (backtrack r t) = []"
    if "(p, t) \<in> set (line_splits s)" for p t
  proof -
    from that have "s = p @ t \<and> path_text p"
      by (simp add: line_splits_iff)
    with all have "backtrack r t = []" by blast
    then show ?thesis by simp
  qed
  then show "backtrack (Cat (Group n (LazyPlus AnyNotNL)) r) s = []"
    unfolding backtrack_Group_dots_Cat concat_eq_Nil_conv by fastforce
qed

lemma lazy_group_first:
  assumes "backtrack (Cat (Group n (LazyPlus AnyNotNL)) r) s = (c, rest) # others"
  shows "\<exists>p t c2 others2. s = p @ t \<and> path_text p \<and> backtrack r t = (c2, rest) # others2 \<and>
           c = (n, p) # c2 \<and>
           (\<forall>q u. s = q @ u \<and> path_text q \<and> backtrack r u \<noteq> [] \<longrightarrow> length p \<le> length q)"
proof -
  let ?f = "\<lambda>(p, t). map (\<lambda>(c2, s2). ((n, p) # c2, s2)) (backtrack r t)"
  from assms have "concat (map ?f (line_splits s)) = (c, rest) # others"
    by (simp only: backtrack_Group_dots_Cat)
  from concat_map_first [OF this] obtain us x vs zs where
    xs: "line_splits s = us @ x # vs" and us: "\<forall>u \<in> set us. ?f u = []" and x: "?f x = (c, rest) # zs"
    by blast
  obtain p t where pt: "x = (p, t)" by (cases x)
  from x pt obtain c2 others2 where r: "backtrack r t = (c2, rest) # others2" and c: "c = (n, p) # c2"
    by (cases "backtrack r t") auto
  have "(p, t) \<in> set (line_splits s)" using xs pt by simp
  then have s: "s = p @ t" "path_text p" by (simp_all add: line_splits_iff)
  have least: "length p \<le> length q" if "s = q @ u" "path_text q" "backtrack r u \<noteq> []" for q u
  proof -
    from that have "(q, u) \<in> set (line_splits s)" by (simp add: line_splits_iff)
    then consider "(q, u) \<in> set us" | "(q, u) = (p, t)" | "(q, u) \<in> set vs"
      using xs pt by auto
    then show ?thesis
    proof cases
      case 1
      with us have "?f (q, u) = []" by blast
      with that(3) show ?thesis by simp
    next
      case 2
      then show ?thesis by simp
    next
      case 3
      have "sorted_wrt (\<lambda>a b. length (fst a) < length (fst b)) (us @ (p, t) # vs)"
        using line_splits_sorted [of s] xs pt by simp
      with 3 show ?thesis by (auto simp: sorted_wrt_append)
    qed
  qed
  from s r c least show ?thesis by blast
qed

text \<open>The unanchored search.\<close>

lemma search_None:
  "search re s pos = None \<longleftrightarrow> (\<forall>i \<le> length s. backtrack re (drop i s) = [])"
proof (induction s arbitrary: pos)
  case Nil
  show ?case by (simp split: list.splits)
next
  case (Cons x xs)
  have "(\<forall>i \<le> length (x # xs). backtrack re (drop i (x # xs)) = []) \<longleftrightarrow>
        backtrack re (x # xs) = [] \<and> (\<forall>i \<le> length xs. backtrack re (drop i xs) = [])"
    by (simp add: less_Suc_eq_le [symmetric] All_less_Suc2)
  with Cons show ?case
    by (simp split: list.splits)
qed

lemma search_Some:
  "search re s pos = Some (start, m, c) \<Longrightarrow>
   \<exists>i rest others. i \<le> length s \<and> start = pos + i \<and>
      backtrack re (drop i s) = (c, rest) # others \<and>
      m = take (length (drop i s) - length rest) (drop i s) \<and>
      (\<forall>j < i. backtrack re (drop j s) = [])"
proof (induction s arbitrary: pos)
  case Nil
  then show ?case by (auto split: list.splits)
next
  case (Cons x xs)
  show ?case
  proof (cases "backtrack re (x # xs)")
    case Nil
    with Cons.prems have "search re xs (Suc pos) = Some (start, m, c)" by simp
    from Cons.IH [OF this] obtain i rest others where
      i: "i \<le> length xs" "start = Suc pos + i" "backtrack re (drop i xs) = (c, rest) # others"
         "m = take (length (drop i xs) - length rest) (drop i xs)"
         "\<forall>j < i. backtrack re (drop j xs) = []"
      by blast
    have "\<forall>j < Suc i. backtrack re (drop j (x # xs)) = []"
      using i(5) Nil by (auto simp: less_Suc_eq_0_disj)
    with i show ?thesis
      by (intro exI [of _ "Suc i"] exI [of _ rest] exI [of _ others]) simp
  next
    case (Cons a others)
    obtain c' rest where a: "a = (c', rest)" by (cases a)
    with Cons Cons.prems show ?thesis
      by (intro exI [of _ 0] exI [of _ rest] exI [of _ others]) auto
  qed
qed

lemma Lit_some: "backtrack (Lit l) s \<noteq> [] \<longleftrightarrow> (\<exists>t. s = l @ t)"
  by (auto simp: prefix_def)

lemma Lit_first: "backtrack (Lit l) s = (c, rest) # others \<Longrightarrow> c = [] \<and> s = l @ rest"
  by (auto simp: prefix_def split: if_splits)

lemma Lit_Cat_some:
  "backtrack (Cat (Lit l) r) s \<noteq> [] \<longleftrightarrow> (\<exists>t. s = l @ t \<and> backtrack r t \<noteq> [])"
  unfolding backtrack_Lit_Cat by (auto simp: prefix_def)

lemma Lit_Cat_first:
  "backtrack (Cat (Lit l) r) s = x # xs \<Longrightarrow> \<exists>t. s = l @ t \<and> backtrack r t = x # xs"
  unfolding backtrack_Lit_Cat by (auto simp: prefix_def split: if_splits)

lemma lazy_group_some:
  "backtrack (Cat (Group n (LazyPlus AnyNotNL)) r) s \<noteq> [] \<longleftrightarrow>
     (\<exists>p t. s = p @ t \<and> path_text p \<and> backtrack r t \<noteq> [])"
  using lazy_group_none [of n r s] by blast

lemma Alt_Cat:
  "backtrack (Cat (Alt r1 r2) r) s = backtrack (Cat r1 r) s @ backtrack (Cat r2 r) s"
  by simp

lemma Alt_Lit_Cat_some:
  "backtrack (Cat (Alt (Lit m1) (Lit m2)) r) s \<noteq> [] \<longleftrightarrow>
     (\<exists>mark t. (mark = m1 \<or> mark = m2) \<and> s = mark @ t \<and> backtrack r t \<noteq> [])"
  unfolding Alt_Cat append_is_Nil_conv de_Morgan_conj Lit_Cat_some by blast

lemma two_groups_some:
  "backtrack (Cat (Lit l1) (Cat (Group n1 (LazyPlus AnyNotNL))
             (Cat (Lit l2) (Cat (Group n2 (LazyPlus AnyNotNL)) (Lit l3))))) s \<noteq> [] \<longleftrightarrow>
   (\<exists>p1 p2 rest. s = l1 @ p1 @ l2 @ p2 @ l3 @ rest \<and> path_text p1 \<and> path_text p2)"
  unfolding Lit_Cat_some lazy_group_some Lit_some by blast

lemma group_class_some:
  "backtrack (Cat (Lit l1) (Cat (Group n1 (LazyPlus AnyNotNL))
             (Cat (Lit l2) (Cat (Alt (Lit m1) (Lit m2)) (Lit l3))))) s \<noteq> [] \<longleftrightarrow>
   (\<exists>p mark rest. s = l1 @ p @ l2 @ mark @ l3 @ rest \<and> path_text p \<and> (mark = m1 \<or> mark = m2))"
  unfolding Lit_Cat_some lazy_group_some Alt_Lit_Cat_some Lit_some by blast

lemma two_groups_first:
  assumes "backtrack (Cat (Lit l1) (Cat (Group n1 (LazyPlus AnyNotNL))
             (Cat (Lit l2) (Cat (Group n2 (LazyPlus AnyNotNL)) (Lit l3))))) s = (c, rest) # others"
  shows "\<exists>p1 p2. c = [(n1, p1), (n2, p2)] \<and> s = l1 @ p1 @ l2 @ p2 @ l3 @ rest \<and>
           path_text p1 \<and> path_text p2 \<and>
           (\<forall>q1 q2 rest'. s = l1 @ q1 @ l2 @ q2 @ l3 @ rest' \<and> path_text q1 \<and> path_text q2 \<longrightarrow>
              length p1 < length q1 \<or> (q1 = p1 \<and> length p2 \<le> length q2))"
proof -
  let ?T2 = "Cat (Group n2 (LazyPlus AnyNotNL)) (Lit l3)"
  let ?T1 = "Cat (Lit l2) ?T2"
  let ?T0 = "Cat (Group n1 (LazyPlus AnyNotNL)) ?T1"
  from Lit_Cat_first [OF assms] obtain s1 where
    s1: "s = l1 @ s1" "backtrack ?T0 s1 = (c, rest) # others" by blast
  from lazy_group_first [OF s1(2)] obtain p1 t c2 o2 where
    g1: "s1 = p1 @ t" "path_text p1" "backtrack ?T1 t = (c2, rest) # o2" "c = (n1, p1) # c2"
    and min1: "\<forall>q u. s1 = q @ u \<and> path_text q \<and> backtrack ?T1 u \<noteq> [] \<longrightarrow> length p1 \<le> length q"
    by blast
  from Lit_Cat_first [OF g1(3)] obtain t2 where
    t2: "t = l2 @ t2" "backtrack ?T2 t2 = (c2, rest) # o2" by blast
  from lazy_group_first [OF t2(2)] obtain p2 u c3 o3 where
    g2: "t2 = p2 @ u" "path_text p2" "backtrack (Lit l3) u = (c3, rest) # o3" "c2 = (n2, p2) # c3"
    and min2: "\<forall>q u'. t2 = q @ u' \<and> path_text q \<and> backtrack (Lit l3) u' \<noteq> [] \<longrightarrow> length p2 \<le> length q"
    by blast
  from Lit_first [OF g2(3)] have l3: "c3 = []" "u = l3 @ rest" by simp_all
  have shape: "c = [(n1, p1), (n2, p2)]" "s = l1 @ p1 @ l2 @ p2 @ l3 @ rest"
    using s1(1) g1(1,4) t2(1) g2(1,4) l3 by simp_all
  have least: "length p1 < length q1 \<or> (q1 = p1 \<and> length p2 \<le> length q2)"
    if q: "s = l1 @ q1 @ l2 @ q2 @ l3 @ rest'" "path_text q1" "path_text q2" for q1 q2 rest'
  proof -
    from q(1) s1(1) have s1q: "s1 = q1 @ (l2 @ q2 @ l3 @ rest')" by simp
    have "backtrack ?T1 (l2 @ q2 @ l3 @ rest') \<noteq> []"
      unfolding Lit_Cat_some lazy_group_some Lit_some using q(3) by blast
    with min1 s1q q(2) have le: "length p1 \<le> length q1" by blast
    show ?thesis
    proof (cases "length p1 = length q1")
      case True
      with s1q g1(1) have eq: "q1 = p1" "t = l2 @ q2 @ l3 @ rest'" by simp_all
      with t2(1) have "t2 = q2 @ (l3 @ rest')" by simp
      moreover have "backtrack (Lit l3) (l3 @ rest') \<noteq> []"
        unfolding Lit_some by blast
      ultimately have "length p2 \<le> length q2" using min2 q(3) by blast
      with eq(1) show ?thesis by simp
    next
      case False
      with le show ?thesis by simp
    qed
  qed
  from shape g1(2) g2(2) least show ?thesis by blast
qed

lemma search_None_pre:
  "search re s pos = None \<longleftrightarrow> (\<forall>pre t. s = pre @ t \<longrightarrow> backtrack re t = [])"
proof -
  have "(\<forall>i \<le> length s. backtrack re (drop i s) = []) \<longleftrightarrow>
        (\<forall>pre t. s = pre @ t \<longrightarrow> backtrack re t = [])"
  proof
    assume a: "\<forall>i \<le> length s. backtrack re (drop i s) = []"
    show "\<forall>pre t. s = pre @ t \<longrightarrow> backtrack re t = []"
    proof (intro allI impI)
      fix pre t
      assume "s = pre @ t"
      then have "length pre \<le> length s" "drop (length pre) s = t" by simp_all
      with a show "backtrack re t = []" by metis
    qed
  next
    assume a: "\<forall>pre t. s = pre @ t \<longrightarrow> backtrack re t = []"
    show "\<forall>i \<le> length s. backtrack re (drop i s) = []"
    proof (intro allI impI)
      fix i
      have "s = take i s @ drop i s" by simp
      with a show "backtrack re (drop i s) = []" by blast
    qed
  qed
  then show ?thesis by (simp only: search_None)
qed

lemma search_Some_pre:
  assumes "search re s 0 = Some (i, m, c)"
  shows "\<exists>rest others. i \<le> length s \<and> backtrack re (drop i s) = (c, rest) # others \<and>
           (\<forall>pre t. s = pre @ t \<and> backtrack re t \<noteq> [] \<longrightarrow> i \<le> length pre)"
proof -
  from search_Some [OF assms] obtain j rest others where
    j: "j \<le> length s" "i = 0 + j" "backtrack re (drop j s) = (c, rest) # others"
       "\<forall>k < j. backtrack re (drop k s) = []"
    by blast
  have "i \<le> length pre" if "s = pre @ t" "backtrack re t \<noteq> []" for pre t
  proof (rule ccontr)
    assume "\<not> i \<le> length pre"
    then have "length pre < j" using j(2) by simp
    with j(4) have "backtrack re (drop (length pre) s) = []" by blast
    with that show False by simp
  qed
  with j show ?thesis by auto
qed

lemma fileRe_search_None:
  "search fileRe out 0 = None \<longleftrightarrow> \<not> (\<exists>pre p1 p2. file_line out pre p1 p2)"
proof -
  have "(\<forall>pre t. out = pre @ t \<longrightarrow> backtrack fileRe t = []) \<longleftrightarrow>
        \<not> (\<exists>pre t. out = pre @ t \<and> backtrack fileRe t \<noteq> [])"
    by blast
  also have "\<dots> \<longleftrightarrow> \<not> (\<exists>pre p1 p2. file_line out pre p1 p2)"
    unfolding fileRe_def two_groups_some file_line_def by blast
  finally show ?thesis
    by (simp only: search_None_pre)
qed

lemma fileRe_search_Some:
  assumes "search fileRe out 0 = Some (i, m, c)"
  shows "\<exists>p1 p2. c = [(1, p1), (2, p2)] \<and> first_file_line out (take i out) p1 p2"
proof -
  from search_Some_pre [OF assms] obtain rest others where
    i: "i \<le> length out" and b: "backtrack fileRe (drop i out) = (c, rest) # others"
    and left: "\<forall>pre t. out = pre @ t \<and> backtrack fileRe t \<noteq> [] \<longrightarrow> i \<le> length pre"
    by blast
  from two_groups_first [OF b [unfolded fileRe_def]] obtain p1 p2 where
    c: "c = [(1, p1), (2, p2)]"
    and shape: "drop i out = ''The certificate is at \"'' @ p1 @ ''\" and the key at \"'' @ p2
                     @ ''\"'' @ rest"
    and p: "path_text p1" "path_text p2"
    and least: "\<forall>q1 q2 rest'. drop i out = ''The certificate is at \"'' @ q1
                     @ ''\" and the key at \"'' @ q2 @ ''\"'' @ rest' \<and> path_text q1 \<and> path_text q2 \<longrightarrow>
                  length p1 < length q1 \<or> (q1 = p1 \<and> length p2 \<le> length q2)"
    by blast
  have "out = take i out @ ''The certificate is at \"'' @ p1
                     @ ''\" and the key at \"'' @ p2 @ ''\"'' @ rest"
    by (simp only: shape [symmetric] append_take_drop_id)
  with p have line: "file_line out (take i out) p1 p2"
    unfolding file_line_def by blast
  have first: "length (take i out) < length pre' \<or>
       (pre' = take i out \<and> (length p1 < length q1 \<or> (q1 = p1 \<and> length p2 \<le> length q2)))"
    if q: "file_line out pre' q1 q2" for pre' q1 q2
  proof -
    from q obtain post where
      out: "out = pre' @ ''The certificate is at \"'' @ q1 @ ''\" and the key at \"'' @ q2
                     @ ''\"'' @ post"
      and qp: "path_text q1" "path_text q2"
      unfolding file_line_def by blast
    have "backtrack fileRe (''The certificate is at \"'' @ q1 @ ''\" and the key at \"'' @ q2
                     @ ''\"'' @ post) \<noteq> []"
      unfolding fileRe_def two_groups_some using qp by blast
    with left out have le: "i \<le> length pre'" by blast
    show ?thesis
    proof (cases "i = length pre'")
      case True
      have pre: "take i out = pre'"
        by (subst out) (simp only: True take_all_iff append_eq_conv_conj take_append, simp)
      have "drop i out = ''The certificate is at \"'' @ q1 @ ''\" and the key at \"'' @ q2
                     @ ''\"'' @ post"
        by (subst out) (simp only: True drop_append, simp)
      with least qp have "length p1 < length q1 \<or> (q1 = p1 \<and> length p2 \<le> length q2)"
        by blast
      with pre show ?thesis by simp
    next
      case False
      with le i show ?thesis by simp
    qed
  qed
  from c line first show ?thesis
    unfolding first_file_line_def by blast
qed

lemma caRe_search_None:
  "search caRe out 0 = None \<longleftrightarrow> \<not> (\<exists>pre p. ca_line out pre p)"
proof -
  have "(\<forall>pre t. out = pre @ t \<longrightarrow> backtrack caRe t = []) \<longleftrightarrow>
        \<not> (\<exists>pre t. out = pre @ t \<and> backtrack caRe t \<noteq> [])"
    by blast
  also have "\<dots> \<longleftrightarrow> \<not> (\<exists>pre p. ca_line out pre p)"
    unfolding caRe_def group_class_some ca_line_def by blast
  finally show ?thesis
    by (simp only: search_None_pre)
qed

lemma parseFiles_None: "search fileRe out 0 = None \<Longrightarrow> parseFiles out = ([], [])"
  by (simp add: parseFiles_def FindSubmatch_def)

lemma parseFiles_Some:
  "search fileRe out 0 = Some (i, m, [(1, p1), (2, p2)]) \<Longrightarrow> parseFiles out = (p1, p2)"
  by (simp add: parseFiles_def FindSubmatch_def fileRe_def upt_rec)

lemma parseCA_None: "search caRe out 0 = None \<Longrightarrow> parseCA out = []"
  by (simp add: parseCA_def FindSubmatch_def)

section \<open>Clean and Join\<close>

lemma takeWhile_slash:
  "takeWhile (\<lambda>c. \<not> IsPathSeparator c) (p @ ''/'') = takeWhile (\<lambda>c. \<not> IsPathSeparator c) p"
  by (induction p) (simp_all add: IsPathSeparator_def)

lemma dropWhile_slash:
  "dropWhile (\<lambda>c. \<not> IsPathSeparator c) (p @ ''/'') = dropWhile (\<lambda>c. \<not> IsPathSeparator c) p @ ''/''"
  by (induction p) (simp_all add: IsPathSeparator_def)

lemma clean_loop_Nil: "clean_loop rooted [] buf dotdot = buf"
  by (simp add: clean_loop.simps)

lemma clean_loop_sep:
  "IsPathSeparator c \<Longrightarrow> clean_loop rooted (c # rest) buf dotdot = clean_loop rooted rest buf dotdot"
  by (subst clean_loop.simps) simp

lemma clean_loop_dot:
  "\<not> IsPathSeparator c \<Longrightarrow> dot_element c rest \<Longrightarrow>
   clean_loop rooted (c # rest) buf dotdot = clean_loop rooted rest buf dotdot"
  by (subst clean_loop.simps) (simp add: dot_element_def)

lemma clean_loop_dotdot:
  "\<not> IsPathSeparator c \<Longrightarrow> \<not> dot_element c rest \<Longrightarrow> dotdot_element c rest \<Longrightarrow>
   clean_loop rooted (c # rest) buf dotdot =
     (if length buf > dotdot
      then clean_loop rooted (tl rest) (take (rewind buf dotdot (length buf - 1)) buf) dotdot
      else if \<not> rooted
      then clean_loop rooted (tl rest) (buf @ (if length buf > 0 then ''/'' else []) @ ''..'')
             (length (buf @ (if length buf > 0 then ''/'' else []) @ ''..''))
      else clean_loop rooted (tl rest) buf dotdot)"
  by (subst clean_loop.simps) (simp add: dot_element_def dotdot_element_def Let_def)

lemma clean_loop_name:
  assumes "\<not> IsPathSeparator c" and "\<not> dot_element c rest" and "\<not> dotdot_element c rest"
  shows "clean_loop rooted (c # rest) buf dotdot =
     clean_loop rooted (dropWhile (\<lambda>c. \<not> IsPathSeparator c) (c # rest))
       ((buf @ (if rooted \<and> length buf \<noteq> 1 \<or> \<not> rooted \<and> length buf \<noteq> 0 then ''/'' else []))
        @ takeWhile (\<lambda>c. \<not> IsPathSeparator c) (c # rest)) dotdot"
proof -
  have dot: "\<not> (c = CHR ''.'' \<and> (rest = [] \<or> IsPathSeparator (hd rest)))"
    using assms(2) unfolding dot_element_def .
  have dotdot:
    "\<not> (c = CHR ''.'' \<and> hd rest = CHR ''.'' \<and> (tl rest = [] \<or> IsPathSeparator (hd (tl rest))))"
    using assms(3) unfolding dotdot_element_def .
  show ?thesis
    by (subst clean_loop.simps) (simp only: list.case Let_def if_False assms(1) dot dotdot)
qed

lemma dot_element_slash: "dot_element c (rest @ ''/'') = dot_element c rest"
  by (cases rest) (simp_all add: dot_element_def IsPathSeparator_def)

lemma dotdot_element_slash:
  "\<not> dot_element c rest \<Longrightarrow> dotdot_element c (rest @ ''/'') = dotdot_element c rest"
proof (cases rest)
  case Nil
  assume "\<not> dot_element c rest"
  with Nil show ?thesis by (simp add: dot_element_def dotdot_element_def)
next
  case (Cons d rest')
  then show ?thesis
    by (cases rest') (simp_all add: dotdot_element_def IsPathSeparator_def)
qed

lemma clean_loop_slash:
  "clean_loop rooted (path @ ''/'') buf dotdot = clean_loop rooted path buf dotdot"
proof (induction path arbitrary: buf dotdot rule: length_induct)
  case (1 path)
  then have IH: "\<And>ys buf dotdot. length ys < length path \<Longrightarrow>
      clean_loop rooted (ys @ ''/'') buf dotdot = clean_loop rooted ys buf dotdot"
    by blast
  show ?case
  proof (cases path)
    case Nil
    then show ?thesis
      by (simp add: clean_loop_sep clean_loop_Nil IsPathSeparator_def)
  next
    case (Cons c rest)
    consider (sep) "IsPathSeparator c"
      | (dot) "\<not> IsPathSeparator c" "dot_element c rest"
      | (dotdot) "\<not> IsPathSeparator c" "\<not> dot_element c rest" "dotdot_element c rest"
      | (name) "\<not> IsPathSeparator c" "\<not> dot_element c rest" "\<not> dotdot_element c rest"
      by blast
    then show ?thesis
    proof cases
      case sep
      then show ?thesis
        unfolding Cons append_Cons by (simp add: clean_loop_sep IH Cons)
    next
      case dot
      then show ?thesis
        unfolding Cons append_Cons by (simp add: clean_loop_dot dot_element_slash IH Cons)
    next
      case dotdot
      then have rest: "rest \<noteq> []"
        by (auto simp: dot_element_def dotdot_element_def)
      then have tl: "tl (rest @ ''/'') = tl rest @ ''/''" "length (tl rest) < length path"
        using Cons by simp_all
      from dotdot show ?thesis
        unfolding Cons append_Cons
        by (simp only: clean_loop_dotdot dot_element_slash dotdot_element_slash tl IH [OF tl(2)]
              not_False_eq_True)
    next
      case name
      have len: "length (dropWhile (\<lambda>c. \<not> IsPathSeparator c) (c # rest)) < length path"
        using name(1) Cons by (simp add: length_dropWhile_le less_Suc_eq_le)
      have "clean_loop rooted (c # rest @ ''/'') buf dotdot =
            clean_loop rooted (dropWhile (\<lambda>c. \<not> IsPathSeparator c) (c # rest @ ''/''))
       ((buf @ (if rooted \<and> length buf \<noteq> 1 \<or> \<not> rooted \<and> length buf \<noteq> 0 then ''/'' else []))
        @ takeWhile (\<lambda>c. \<not> IsPathSeparator c) (c # rest @ ''/'')) dotdot"
        using name by (intro clean_loop_name) (simp_all add: dot_element_slash dotdot_element_slash)
      also have "c # rest @ ''/'' = (c # rest) @ ''/''" by simp
      finally show ?thesis
        unfolding Cons
        by (simp only: takeWhile_slash dropWhile_slash IH [OF len] clean_loop_name [OF name])
    qed
  qed
qed

lemma Clean_nonempty: "Clean path \<noteq> []"
  by (simp add: Clean_def Let_def)

lemma Clean_slash: "path \<noteq> [] \<Longrightarrow> Clean (path @ ''/'') = Clean path"
proof (cases path)
  case Nil
  assume "path \<noteq> []"
  with Nil show ?thesis by simp
next
  case (Cons c rest)
  have "clean_loop r (c # rest @ ''/'') b d = clean_loop r (c # rest) b d" for r b d
    using clean_loop_slash [of r "c # rest" b d] by simp
  then show ?thesis
    unfolding Cons by (simp add: Clean_def Let_def clean_loop_slash)
qed

lemma Join_nonempty: "d \<noteq> [] \<Longrightarrow> Join [d, x] \<noteq> []"
  by (simp add: Clean_nonempty)

lemma Join_empty: "d \<noteq> [] \<Longrightarrow> Join [d, []] = Clean d"
  using Clean_slash [of d] by simp

section \<open>The parser against the specification\<close>

lemma Exec_exit_zero:
  assumes "p = apply_opts opts params_zero" and "domains p \<noteq> []"
    and "run (spec_command p) = Exited 0 out"
    and "parseFiles out = (cf, kf)"
  shows "fst (Exec run opts started) =
         (\<lparr>Cert_CARoot = parseCA out, Cert_Trusted = parseTrusted out,
            Cert_Domains = domains p,
            Cert_File = (if dir p \<noteq> [] \<and> \<not> IsAbs cf then Join [dir p, cf] else cf),
            Cert_KeyFile = (if dir p \<noteq> [] \<and> \<not> IsAbs kf then Join [dir p, kf] else kf)\<rparr>,
           if \<not> parseTrusted out \<and> requireTrust p
           then Some (Errorf_s ''mkcert: CA at '' (parseCA out) '' not trusted, run mkcert -install'')
           else None)"
proof -
  have "CombinedOutput run (spec_command p) = (out, None)"
    using assms(3) by (simp add: CombinedOutput_def)
  from Exec_ran [OF assms(1,2) this assms(4)] show ?thesis by simp
qed

lemma first_file_line_unique:
  assumes "first_file_line out pre p1 p2" and "first_file_line out pre' q1 q2"
  shows "pre' = pre \<and> q1 = p1 \<and> q2 = p2"
proof -
  from assms have a: "file_line out pre p1 p2" and b: "file_line out pre' q1 q2"
    by (simp_all add: first_file_line_def)
  from assms(1) b have ab: "length pre < length pre' \<or>
         (pre' = pre \<and> (length p1 < length q1 \<or> (q1 = p1 \<and> length p2 \<le> length q2)))"
    unfolding first_file_line_def by blast
  from assms(2) a have ba: "length pre' < length pre \<or>
         (pre = pre' \<and> (length q1 < length p1 \<or> (p1 = q1 \<and> length q2 \<le> length p2)))"
    unfolding first_file_line_def by blast
  from ab ba have eq: "pre' = pre" "q1 = p1" "length q2 = length p2" by auto
  from a obtain post where
    1: "out = pre @ ''The certificate is at \"'' @ p1 @ ''\" and the key at \"'' @ p2 @ ''\"'' @ post"
    unfolding file_line_def by blast
  from b eq obtain post' where
    2: "out = pre @ ''The certificate is at \"'' @ p1 @ ''\" and the key at \"'' @ q2 @ ''\"'' @ post'"
    unfolding file_line_def by blast
  from 1 2 have "p2 @ ''\"'' @ post = q2 @ ''\"'' @ post'" by simp
  with eq(3) have "q2 = p2" by (metis append_eq_append_conv)
  with eq show ?thesis by simp
qed

lemma file_line_parseFiles:
  assumes "file_line out pre q1 q2"
  shows "\<exists>pre' p1 p2. parseFiles out = (p1, p2) \<and> first_file_line out pre' p1 p2"
proof -
  from assms have "search fileRe out 0 \<noteq> None"
    unfolding fileRe_search_None by blast
  then obtain i m c where s: "search fileRe out 0 = Some (i, m, c)"
    by (cases "search fileRe out 0") auto
  from fileRe_search_Some [OF s] obtain p1 p2 where
    c: "c = [(1, p1), (2, p2)]" and f: "first_file_line out (take i out) p1 p2"
    by blast
  from s c have "parseFiles out = (p1, p2)"
    by (simp add: parseFiles_Some)
  with f show ?thesis by blast
qed

lemma first_file_line_path_text:
  "first_file_line out pre p1 p2 \<Longrightarrow> p1 \<noteq> [] \<and> p2 \<noteq> []"
  by (simp add: first_file_line_def file_line_def path_text_def)

lemma no_file_line_parseFiles:
  "\<not> (\<exists>pre p1 p2. file_line out pre p1 p2) \<Longrightarrow> parseFiles out = ([], [])"
  by (simp only: fileRe_search_None [symmetric] parseFiles_None)

lemma no_ca_line_parseCA:
  "\<not> (\<exists>pre ca. ca_line out pre ca) \<Longrightarrow> parseCA out = []"
  by (simp only: caRe_search_None [symmetric] parseCA_None)

lemma transcript_search_file:
  "map_option (\<lambda>(i, m, c). (i, c)) (search fileRe transcript 0) =
     Some (98, [(1, ''./a.pem''), (2, ''/k/a-key.pem'')])"
  by code_simp

lemma transcript_first_file_line:
  "first_file_line transcript (take 98 transcript) ''./a.pem'' ''/k/a-key.pem''"
proof -
  from transcript_search_file obtain m where
    "search fileRe transcript 0 = Some (98, m, [(1, ''./a.pem''), (2, ''/k/a-key.pem'')])"
    by (cases "search fileRe transcript 0") auto
  from fileRe_search_Some [OF this] show ?thesis by simp
qed

lemma transcript_parseFiles: "parseFiles transcript = (''./a.pem'', ''/k/a-key.pem'')"
  by code_simp

lemma transcript_parseCA: "parseCA transcript = ''/ca''"
  by code_simp

lemma transcript_not_installed:
  "\<exists>before after. transcript = before @ ''not installed'' @ after"
proof -
  have "Contains transcript ''not installed''"
    by code_simp
  then show ?thesis
    by (simp only: Contains_sublist sublist_def)
qed

lemma transcript_bare_no_file_line:
  "\<not> (\<exists>pre p1 p2. file_line transcript_bare pre p1 p2)"
proof -
  have "search fileRe transcript_bare 0 = None"
    by code_simp
  then show ?thesis
    unfolding fileRe_search_None .
qed

lemma transcript_bare_no_ca_line:
  "\<not> (\<exists>pre ca. ca_line transcript_bare pre ca)"
proof -
  have "search caRe transcript_bare 0 = None"
    by code_simp
  then show ?thesis
    unfolding caRe_search_None .
qed

lemma transcript_bare_trusted: "parseTrusted transcript_bare"
  by code_simp

section \<open>The claims\<close>

text \<open>
  C1. Degraded success. The options require trust and give at least one domain, the process
  exits with status 0, and its output (the output Exec parses) contains "not installed"
  and a file line. Then Exec returns both an error, the text that the CA is not trusted
  and that \<^verbatim>\<open>mkcert -install\<close> is to be run, and a Cert whose File and KeyFile are not
  empty: they are the two paths of the first file line of the output, joined with the
  working directory when one is given and the path is relative.
\<close>

theorem Exec_untrusted_required:
  assumes "p = apply_opts opts params_zero" and "domains p \<noteq> []" and "requireTrust p"
    and "run (spec_command p) = Exited 0 out"
    and "\<exists>before after. out = before @ ''not installed'' @ after"
    and "\<exists>pre q1 q2. file_line out pre q1 q2"
    and "result = fst (Exec run opts started)"
  shows "snd result = Some (errorString (''mkcert: CA at '' @ Cert_CARoot (fst result)
                                          @ '' not trusted, run mkcert -install'')) \<and>
         Cert_File (fst result) \<noteq> [] \<and> Cert_KeyFile (fst result) \<noteq> [] \<and>
         (\<exists>pre p1 p2. first_file_line out pre p1 p2 \<and>
            Cert_File (fst result) = (if dir p \<noteq> [] \<and> \<not> IsAbs p1 then Join [dir p, p1] else p1) \<and>
            Cert_KeyFile (fst result) = (if dir p \<noteq> [] \<and> \<not> IsAbs p2 then Join [dir p, p2] else p2))"
proof -
  from assms(6) file_line_parseFiles obtain pre p1 p2 where
    parse: "parseFiles out = (p1, p2)" and first: "first_file_line out pre p1 p2"
    by blast
  from assms(5) have untrusted: "\<not> parseTrusted out"
    by (simp only: parseTrusted_def Contains_sublist sublist_def not_not)
  have r: "result =
         (\<lparr>Cert_CARoot = parseCA out, Cert_Trusted = parseTrusted out,
            Cert_Domains = domains p,
            Cert_File = (if dir p \<noteq> [] \<and> \<not> IsAbs p1 then Join [dir p, p1] else p1),
            Cert_KeyFile = (if dir p \<noteq> [] \<and> \<not> IsAbs p2 then Join [dir p, p2] else p2)\<rparr>,
           if \<not> parseTrusted out \<and> requireTrust p
           then Some (Errorf_s ''mkcert: CA at '' (parseCA out) '' not trusted, run mkcert -install'')
           else None)"
    unfolding assms(7)
    by (rule Exec_exit_zero [of p opts run out p1 p2 started, OF assms(1,2,4) parse])
  from first_file_line_path_text [OF first] have ne: "p1 \<noteq> []" "p2 \<noteq> []" by simp_all
  have err: "snd result = Some (errorString (''mkcert: CA at '' @ Cert_CARoot (fst result)
                                          @ '' not trusted, run mkcert -install''))"
    using untrusted assms(3) by (simp add: r Errorf_s_def)
  have files:
    "Cert_File (fst result) = (if dir p \<noteq> [] \<and> \<not> IsAbs p1 then Join [dir p, p1] else p1)"
    "Cert_KeyFile (fst result) = (if dir p \<noteq> [] \<and> \<not> IsAbs p2 then Join [dir p, p2] else p2)"
    by (simp_all add: r)
  have "Cert_File (fst result) \<noteq> []" "Cert_KeyFile (fst result) \<noteq> []"
    unfolding files using ne by (simp_all add: Join_nonempty del: Join.simps)
  with err files first show ?thesis by blast
qed

theorem Exec_untrusted_required_witness:
  "requireTrust (apply_opts [Domains [''localhost''], RequireTrusted True, Directory ''/tmp/x'']
      params_zero) \<and>
   (\<exists>before after. transcript = before @ ''not installed'' @ after) \<and>
   (\<exists>pre q1 q2. file_line transcript pre q1 q2) \<and>
   fst (Exec (\<lambda>cmd. Exited 0 transcript)
          [Domains [''localhost''], RequireTrusted True, Directory ''/tmp/x''] []) =
     (\<lparr>Cert_CARoot = ''/ca'', Cert_Trusted = False, Cert_Domains = [''localhost''],
        Cert_File = ''/tmp/x/a.pem'', Cert_KeyFile = ''/k/a-key.pem''\<rparr>,
      Some (errorString ''mkcert: CA at /ca not trusted, run mkcert -install''))"
proof -
  let ?opts = "[Domains [''localhost''], RequireTrusted True, Directory ''/tmp/x'']"
  let ?run = "\<lambda>cmd :: Cmd. Exited 0 transcript"
  let ?result = "fst (Exec ?run ?opts [])"
  have p: "apply_opts ?opts params_zero =
           \<lparr>dir = ''/tmp/x'', certFile = [], keyFile = [], domains = [''localhost''],
            requireTrust = True\<rparr>"
    by (simp add: params_zero_def)
  have line: "\<exists>pre q1 q2. file_line transcript pre q1 q2"
    using transcript_first_file_line unfolding first_file_line_def by blast
  have "snd ?result = Some (errorString (''mkcert: CA at '' @ Cert_CARoot (fst ?result)
                                          @ '' not trusted, run mkcert -install'')) \<and>
         Cert_File (fst ?result) \<noteq> [] \<and> Cert_KeyFile (fst ?result) \<noteq> [] \<and>
         (\<exists>pre p1 p2. first_file_line transcript pre p1 p2 \<and>
            Cert_File (fst ?result) =
              (if dir (apply_opts ?opts params_zero) \<noteq> [] \<and> \<not> IsAbs p1
               then Join [dir (apply_opts ?opts params_zero), p1] else p1) \<and>
            Cert_KeyFile (fst ?result) =
              (if dir (apply_opts ?opts params_zero) \<noteq> [] \<and> \<not> IsAbs p2
               then Join [dir (apply_opts ?opts params_zero), p2] else p2))"
    by (rule Exec_untrusted_required [of _ ?opts ?run transcript _ "[]", OF refl _ _ refl
          transcript_not_installed line refl])
       (simp_all add: p)
  then obtain pre p1 p2 where
    err: "snd ?result = Some (errorString (''mkcert: CA at '' @ Cert_CARoot (fst ?result)
                                          @ '' not trusted, run mkcert -install''))"
    and first: "first_file_line transcript pre p1 p2"
    and files: "Cert_File (fst ?result) = (if \<not> IsAbs p1 then Join [''/tmp/x'', p1] else p1)"
               "Cert_KeyFile (fst ?result) = (if \<not> IsAbs p2 then Join [''/tmp/x'', p2] else p2)"
    unfolding p by auto
  from first_file_line_unique [OF transcript_first_file_line first]
  have p12: "p1 = ''./a.pem''" "p2 = ''/k/a-key.pem''" by simp_all
  have join: "Join [''/tmp/x'', ''./a.pem''] = ''/tmp/x/a.pem''"
    by code_simp
  have abs: "\<not> IsAbs ''./a.pem''" "IsAbs ''/k/a-key.pem''"
    by (simp_all add: IsAbs_def)
  have rest: "Cert_CARoot (fst ?result) = ''/ca''" "Cert_Trusted (fst ?result) = False"
     "Cert_Domains (fst ?result) = [''localhost'']"
    using Exec_exit_zero [of _ ?opts ?run transcript _ _ "[]", OF refl _ refl transcript_parseFiles]
      transcript_parseCA transcript_not_installed
    by (simp_all add: p parseTrusted_def Contains_sublist sublist_def)
  have "fst ?result = \<lparr>Cert_CARoot = ''/ca'', Cert_Trusted = False, Cert_Domains = [''localhost''],
        Cert_File = ''/tmp/x/a.pem'', Cert_KeyFile = ''/k/a-key.pem''\<rparr>"
    using files rest unfolding p12 by (simp add: abs join del: Join.simps)
  moreover from this err have "snd ?result = Some (errorString ''mkcert: CA at /ca not trusted, run mkcert -install'')"
    by simp
  ultimately have "?result = (\<lparr>Cert_CARoot = ''/ca'', Cert_Trusted = False, Cert_Domains = [''localhost''],
        Cert_File = ''/tmp/x/a.pem'', Cert_KeyFile = ''/k/a-key.pem''\<rparr>,
      Some (errorString ''mkcert: CA at /ca not trusted, run mkcert -install''))"
    by (simp add: prod_eq_iff)
  with transcript_not_installed line show ?thesis
    by (simp add: p)
qed

text \<open>
  C2. For every option list whose resulting domain list is empty, Exec runs no command
  (the list of commands run is unchanged) and returns the zero Cert with the error
  ErrNoDomains.
\<close>

theorem Exec_no_domains:
  "domains (apply_opts opts params_zero) = [] \<Longrightarrow>
   Exec run opts started = ((Cert_zero, Some ErrNoDomains), started)"
  by (simp add: Exec_def)

theorem Exec_no_domains_witness:
  "domains (apply_opts [RequireTrusted True, Domains []] params_zero) = [] \<and>
   Exec (\<lambda>cmd. Exited 0 ''ok'') [RequireTrusted True, Domains []] [] = ((Cert_zero, Some ErrNoDomains), [])"
  using Exec_no_domains [of "[RequireTrusted True, Domains []]" "\<lambda>cmd. Exited 0 ''ok''" "[]"]
  by (simp add: params_zero_def)

text \<open>
  C3. For every output, parseTrusted is false if and only if the output contains the bytes
  "not installed" somewhere, whatever stands before and after them.
\<close>

theorem parseTrusted_iff:
  "parseTrusted out = (\<not> (\<exists>before after. out = before @ ''not installed'' @ after))"
  by (simp add: parseTrusted_def Contains_sublist sublist_def)

text \<open>
  C4. On a run that exits with status 0, with (cf, kf) the paths parsed from the output:
  when a working directory is given, a relative path is replaced by the join of the
  directory and the path, and an absolute path is returned as it is; when no working
  directory is given, both paths are returned as they are.
\<close>

theorem Exec_resolves_paths:
  assumes "p = apply_opts opts params_zero" and "domains p \<noteq> []"
    and "run (spec_command p) = Exited 0 out"
    and "parseFiles out = (cf, kf)"
    and "cert = fst (fst (Exec run opts started))"
  shows "(dir p \<noteq> [] \<and> \<not> IsAbs cf \<longrightarrow> Cert_File cert = Join [dir p, cf]) \<and>
         (dir p \<noteq> [] \<and> IsAbs cf \<longrightarrow> Cert_File cert = cf) \<and>
         (dir p \<noteq> [] \<and> \<not> IsAbs kf \<longrightarrow> Cert_KeyFile cert = Join [dir p, kf]) \<and>
         (dir p \<noteq> [] \<and> IsAbs kf \<longrightarrow> Cert_KeyFile cert = kf) \<and>
         (dir p = [] \<longrightarrow> Cert_File cert = cf \<and> Cert_KeyFile cert = kf)"
  unfolding assms(5) Exec_exit_zero [of p opts run out cf kf started, OF assms(1-4)]
  by simp

theorem Exec_resolves_paths_witness:
  "parseFiles transcript = (''./a.pem'', ''/k/a-key.pem'') \<and>
   \<not> IsAbs ''./a.pem'' \<and> IsAbs ''/k/a-key.pem'' \<and>
   Cert_File (fst (fst (Exec (\<lambda>cmd. Exited 0 transcript)
       [Domains [''localhost''], Directory ''/tmp/x''] []))) = ''/tmp/x/a.pem'' \<and>
   Cert_KeyFile (fst (fst (Exec (\<lambda>cmd. Exited 0 transcript)
       [Domains [''localhost''], Directory ''/tmp/x''] []))) = ''/k/a-key.pem'' \<and>
   Cert_File (fst (fst (Exec (\<lambda>cmd. Exited 0 transcript)
       [Domains [''localhost'']] []))) = ''./a.pem'' \<and>
   Cert_KeyFile (fst (fst (Exec (\<lambda>cmd. Exited 0 transcript)
       [Domains [''localhost'']] []))) = ''/k/a-key.pem''"
proof -
  have join: "Join [''/tmp/x'', ''./a.pem''] = ''/tmp/x/a.pem''"
    by code_simp
  have abs: "\<not> IsAbs ''./a.pem''" "IsAbs ''/k/a-key.pem''"
    by (simp_all add: IsAbs_def)
  note a = Exec_resolves_paths [of _ "[Domains [''localhost''], Directory ''/tmp/x'']"
      "\<lambda>cmd. Exited 0 transcript" transcript "''./a.pem''" "''/k/a-key.pem''" _ "[]",
      OF refl _ refl transcript_parseFiles refl]
  note b = Exec_resolves_paths [of _ "[Domains [''localhost'']]"
      "\<lambda>cmd. Exited 0 transcript" transcript "''./a.pem''" "''/k/a-key.pem''" _ "[]",
      OF refl _ refl transcript_parseFiles refl]
  show ?thesis
    using a b transcript_parseFiles
    by (simp add: params_zero_def abs join del: Join.simps)
qed

text \<open>
  C5. The claim is that the error returned after a non-zero exit wraps the exit error, with
  the captured standard error. At the exit status 1 with the output "boom", Exec returns
  an error that is only a text: it has nothing to unwrap, \<^verbatim>\<open>errors.As\<close> finds no exit
  error in it, and the output of the process is not in its text.
\<close>

theorem Exec_exit_error_not_wrapped:
  "fst (Exec (\<lambda>cmd. Exited 1 ''boom'') [Domains [''localhost'']] []) =
     (Cert_zero, Some (errorString ''mkcert: exit status 1'')) \<and>
   Unwrap (errorString ''mkcert: exit status 1'') = None \<and>
   As_ExitError (errorString ''mkcert: exit status 1'') = None"
proof -
  have "itoa 1 = ''1''"
    by code_simp
  then show ?thesis
    by (simp add: Exec_def Let_def params_zero_def Command_def CombinedOutput_def Errorf_s_def)
qed

text \<open>
  C6. For every output, parseFiles returns the two paths of the first match of the file
  line (leftmost, then the shortest first path, then the shortest second path), and two
  empty strings when the output has no file line; an output with a file line has a
  first match.
\<close>

theorem parseFiles_first_match:
  "(first_file_line out pre p1 p2 \<longrightarrow> parseFiles out = (p1, p2)) \<and>
   (\<not> (\<exists>pre p1 p2. file_line out pre p1 p2) \<longrightarrow> parseFiles out = ([], [])) \<and>
   ((\<exists>pre p1 p2. file_line out pre p1 p2) \<longrightarrow> (\<exists>pre p1 p2. first_file_line out pre p1 p2))"
proof (intro conjI impI)
  assume "\<exists>pre p1 p2. file_line out pre p1 p2"
  with file_line_parseFiles show "\<exists>pre p1 p2. first_file_line out pre p1 p2"
    by blast
next
  assume first: "first_file_line out pre p1 p2"
  then have "file_line out pre p1 p2"
    by (simp add: first_file_line_def)
  from file_line_parseFiles [OF this] obtain pre' q1 q2 where
    q: "parseFiles out = (q1, q2)" "first_file_line out pre' q1 q2"
    by blast
  from first_file_line_unique [OF first q(2)] q(1) show "parseFiles out = (p1, p2)"
    by simp
next
  assume "\<not> (\<exists>pre p1 p2. file_line out pre p1 p2)"
  then show "parseFiles out = ([], [])"
    by (rule no_file_line_parseFiles)
qed

theorem parseFiles_first_match_witness:
  "first_file_line transcript (take 98 transcript) ''./a.pem'' ''/k/a-key.pem'' \<and>
   parseFiles transcript = (''./a.pem'', ''/k/a-key.pem'') \<and>
   \<not> (\<exists>pre p1 p2. file_line transcript_bare pre p1 p2) \<and>
   parseFiles transcript_bare = ([], [])"
  using parseFiles_first_match [of transcript "take 98 transcript" "''./a.pem''" "''/k/a-key.pem''"]
    parseFiles_first_match [of transcript_bare]
    transcript_first_file_line transcript_bare_no_file_line
  by blast

text \<open>
  C7. For every output without a CA line, parseCA returns the empty string; on a run that
  exits with status 0 the field CARoot of the returned Cert is empty, and the error is
  nil unless trust is required and the output says "not installed".
\<close>

theorem Exec_no_ca_line:
  assumes "\<not> (\<exists>pre ca. ca_line out pre ca)"
    and "p = apply_opts opts params_zero" and "domains p \<noteq> []"
    and "run (spec_command p) = Exited 0 out"
    and "result = fst (Exec run opts started)"
  shows "parseCA out = [] \<and> Cert_CARoot (fst result) = [] \<and>
         (parseTrusted out \<or> \<not> requireTrust p \<longrightarrow> snd result = None)"
proof -
  obtain cf kf where parse: "parseFiles out = (cf, kf)"
    by (cases "parseFiles out")
  from no_ca_line_parseCA [OF assms(1)] show ?thesis
    unfolding assms(5) Exec_exit_zero [of p opts run out cf kf started, OF assms(2-4) parse]
    by auto
qed

theorem Exec_no_ca_line_witness:
  "\<not> (\<exists>pre ca. ca_line transcript_bare pre ca) \<and>
   parseCA transcript_bare = [] \<and>
   Cert_CARoot (fst (fst (Exec (\<lambda>cmd. Exited 0 transcript_bare)
       [Domains [''localhost''], RequireTrusted True] []))) = [] \<and>
   snd (fst (Exec (\<lambda>cmd. Exited 0 transcript_bare)
       [Domains [''localhost''], RequireTrusted True] [])) = None"
  using Exec_no_ca_line [of transcript_bare _ "[Domains [''localhost''], RequireTrusted True]"
      "\<lambda>cmd. Exited 0 transcript_bare" _ "[]", OF transcript_bare_no_ca_line refl _ refl refl]
    transcript_bare_no_ca_line transcript_bare_trusted
  by (simp add: params_zero_def)

text \<open>
  C8. For every option list with a non-empty domain list, Exec runs exactly one command:
  mkcert, with \<^verbatim>\<open>-cert-file\<close> and its path only when a certificate file is given, then
  \<^verbatim>\<open>-key-file\<close> and its path only when a key file is given, then all the domains in the
  order given, in the working directory given.
\<close>

theorem Exec_command_line:
  assumes "p = apply_opts opts params_zero" and "domains p \<noteq> []"
  shows "snd (Exec run opts started) =
         started @ [\<lparr>Args = [''mkcert'']
              @ (if certFile p = [] then [] else [''-cert-file'', certFile p])
              @ (if keyFile p = [] then [] else [''-key-file'', keyFile p])
              @ domains p,
      Dir = dir p\<rparr>]"
proof (cases "CombinedOutput run (spec_command p)")
  case (Pair out err)
  obtain cf kf where "parseFiles out = (cf, kf)" by (cases "parseFiles out")
  with Pair assms show ?thesis
    by (cases err) (simp_all add: Exec_failed [of p opts run out] Exec_ran [of p opts run out cf kf] spec_command_def)
qed

theorem Exec_command_line_witness:
  "snd (Exec (\<lambda>cmd. Exited 0 [])
          [Domains [''localhost'', ''::1''], KeyFile ''k.pem'', Directory ''/tmp'',
           CertFile ''c.pem''] []) =
   [\<lparr>Args = [''mkcert'', ''-cert-file'', ''c.pem'', ''-key-file'', ''k.pem'',
             ''localhost'', ''::1''],
     Dir = ''/tmp''\<rparr>]"
  using Exec_command_line [of _ "[Domains [''localhost'', ''::1''], KeyFile ''k.pem'',
           Directory ''/tmp'', CertFile ''c.pem'']" "\<lambda>cmd. Exited 0 []" "[]", OF refl]
  by (simp add: params_zero_def)

text \<open>
  C9. On a run that exits with status 0, with a working directory given and an output
  without a file line, the fields File and KeyFile of the returned Cert are not empty:
  both are the join of the directory with the empty string, which is the cleaned
  directory path.
\<close>

theorem Exec_no_file_line_in_directory:
  assumes "p = apply_opts opts params_zero" and "domains p \<noteq> []" and "dir p \<noteq> []"
    and "run (spec_command p) = Exited 0 out"
    and "\<not> (\<exists>pre p1 p2. file_line out pre p1 p2)"
    and "cert = fst (fst (Exec run opts started))"
  shows "Cert_File cert = Join [dir p, []] \<and> Cert_File cert = Clean (dir p) \<and>
         Cert_File cert \<noteq> [] \<and>
         Cert_KeyFile cert = Join [dir p, []] \<and> Cert_KeyFile cert = Clean (dir p) \<and>
         Cert_KeyFile cert \<noteq> []"
proof -
  have parse: "parseFiles out = ([], [])"
    using assms(5) by (rule no_file_line_parseFiles)
  have "\<not> IsAbs []"
    by (simp add: IsAbs_def)
  with assms(3) have "Cert_File cert = Join [dir p, []]" "Cert_KeyFile cert = Join [dir p, []]"
    unfolding assms(6) Exec_exit_zero [of p opts run out "[]" "[]" started, OF assms(1,2,4) parse]
    by simp_all
  with assms(3) show ?thesis
    by (simp add: Join_empty Clean_nonempty del: Join.simps)
qed

theorem Exec_no_file_line_in_directory_witness:
  "\<not> (\<exists>pre p1 p2. file_line transcript_bare pre p1 p2) \<and>
   Clean ''/tmp/x/'' = ''/tmp/x'' \<and>
   Cert_File (fst (fst (Exec (\<lambda>cmd. Exited 0 transcript_bare)
       [Domains [''localhost''], Directory ''/tmp/x/''] []))) = ''/tmp/x'' \<and>
   Cert_KeyFile (fst (fst (Exec (\<lambda>cmd. Exited 0 transcript_bare)
       [Domains [''localhost''], Directory ''/tmp/x/''] []))) = ''/tmp/x''"
proof -
  let ?opts = "[Domains [''localhost''], Directory ''/tmp/x/'']"
  let ?cert = "fst (fst (Exec (\<lambda>cmd. Exited 0 transcript_bare) ?opts []))"
  have clean: "Clean ''/tmp/x/'' = ''/tmp/x''"
    by code_simp
  have d: "dir (apply_opts ?opts params_zero) = ''/tmp/x/''"
    by (simp add: params_zero_def)
  have dom: "domains (apply_opts ?opts params_zero) \<noteq> []"
    and dirne: "dir (apply_opts ?opts params_zero) \<noteq> []"
    by (simp_all add: params_zero_def)
  have "Cert_File ?cert = Clean (dir (apply_opts ?opts params_zero)) \<and>
        Cert_KeyFile ?cert = Clean (dir (apply_opts ?opts params_zero))"
    using Exec_no_file_line_in_directory [of _ ?opts
      "\<lambda>cmd. Exited 0 transcript_bare" transcript_bare _ "[]",
      OF refl dom dirne refl transcript_bare_no_file_line refl]
    by blast
  then have "Cert_File ?cert = ''/tmp/x'' \<and> Cert_KeyFile ?cert = ''/tmp/x''"
    by (simp only: d clean)
  with transcript_bare_no_file_line clean show ?thesis
    by blast
qed



end
